theory Spec2Isabelle
  imports Complex_Main
begin

section \<open>The time tracker: data model\<close>

text \<open>
  The development follows \<^verbatim>\<open>src/app/time-tracker/time-tracker-client.tsx\<close>.
  Durations (\<^verbatim>\<open>seconds\<close>) are the integers of the \<^verbatim>\<open>INTEGER\<close> column of
  \<^verbatim>\<open>schema.sql\<close>; sums of them are exact in JavaScript below \<open>2^53\<close>, so they are
  modelled as \<^typ>\<open>int\<close>. Strings are byte lists; the two string primitives of the
  platform that the code calls (\<^verbatim>\<open>toLowerCase\<close>, \<^verbatim>\<open>trim\<close>) are modelled on ASCII.
  Field names that occur in several source types carry the type's initial.
\<close>

record TimeEntry =
  entry_id :: int
  category :: string
  seconds :: int
  user_id :: string
  created_at :: string
  color :: string

record AggregatedEntry =
  name :: string
  a_seconds :: int
  a_color :: string

definition colors :: "string list" where
  "colors = [''#667eea'', ''#764ba2'', ''#f093fb'', ''#4facfe'', ''#43e97b'', ''#fa709a'',
             ''#fee140'', ''#30cfd0'', ''#a8edea'', ''#fed6e3'', ''#c471f5'', ''#12c2e9'']"

section \<open>Platform string primitives\<close>

definition upper_letters :: string where
  "upper_letters = ''ABCDEFGHIJKLMNOPQRSTUVWXYZ''"

definition lower_letters :: string where
  "lower_letters = ''abcdefghijklmnopqrstuvwxyz''"

definition lower_char :: "char \<Rightarrow> char" where
  "lower_char c = (case map_of (zip upper_letters lower_letters) c of None \<Rightarrow> c | Some d \<Rightarrow> d)"

text \<open>\<^verbatim>\<open>String.prototype.toLowerCase\<close>, on ASCII text.\<close>

definition toLowerCase :: "string \<Rightarrow> string" where
  "toLowerCase s = map lower_char s"

definition digit_char :: "nat \<Rightarrow> char" where
  "digit_char d = ''0123456789'' ! d"

text \<open>\<^verbatim>\<open>String(n)\<close> for an integer \<open>n\<close>: its decimal digits, with a sign when negative.\<close>

fun string_of_nat :: "nat \<Rightarrow> string" where
  "string_of_nat n =
     (if n < 10 then [digit_char n] else string_of_nat (n div 10) @ [digit_char (n mod 10)])"

declare string_of_nat.simps [simp del]

definition String_of :: "int \<Rightarrow> string" where
  "String_of i = (if i < 0 then CHR ''-'' # string_of_nat (nat (- i)) else string_of_nat (nat i))"

text \<open>\<^verbatim>\<open>s.padStart(target, pad)\<close>: the pad string repeated and cut to the missing length.\<close>

definition padStart :: "nat \<Rightarrow> string \<Rightarrow> string \<Rightarrow> string" where
  "padStart target pad s =
     take (target - length s) (concat (replicate (target - length s) pad)) @ s"

text \<open>The remainder operator \<^verbatim>\<open>%\<close> on integers: the sign follows the dividend.\<close>

definition js_rem :: "int \<Rightarrow> int \<Rightarrow> int" where
  "js_rem a b = sgn a * (\<bar>a\<bar> mod \<bar>b\<bar>)"

section \<open>formatTime\<close>

definition formatTime :: "int \<Rightarrow> string" where
  "formatTime secs0 =
     (let hours = secs0 div 3600;
          minutes = js_rem secs0 3600 div 60;
          secs = js_rem secs0 60
      in padStart 2 ''0'' (String_of hours) @ '':'' @ padStart 2 ''0'' (String_of minutes) @ '':''
           @ padStart 2 ''0'' (String_of secs))"

section \<open>aggregateEntries\<close>

text \<open>
  A JavaScript \<^verbatim>\<open>Map\<close> iterates in insertion order, and \<^verbatim>\<open>set\<close> on a key that is
  present keeps the key's position: an association list, updated in place or extended
  at the end.
\<close>

type_synonym tally = "(string \<times> int) list"

fun map_get :: "tally \<Rightarrow> string \<Rightarrow> int option" where
  "map_get [] k = None"
| "map_get ((k', v) # m) k = (if k' = k then Some v else map_get m k)"

fun map_set :: "string \<Rightarrow> int \<Rightarrow> tally \<Rightarrow> tally" where
  "map_set k v [] = [(k, v)]"
| "map_set k v ((k', v') # m) = (if k' = k then (k, v) # m else (k', v') # map_set k v m)"

text \<open>\<^verbatim>\<open>aggregated.get(k) || 0\<close>: zero for a missing key (and for a stored zero).\<close>

definition or_zero :: "int option \<Rightarrow> int" where
  "or_zero r = (case r of None \<Rightarrow> 0 | Some v \<Rightarrow> if v = 0 then 0 else v)"

definition add_entry :: "tally \<Rightarrow> TimeEntry \<Rightarrow> tally" where
  "add_entry aggregated entry =
     (let categoryLower = toLowerCase (category entry);
          current = or_zero (map_get aggregated categoryLower)
      in map_set categoryLower (current + seconds entry) aggregated)"

fun emit :: "nat \<Rightarrow> tally \<Rightarrow> AggregatedEntry list" where
  "emit colorIndex [] = []"
| "emit colorIndex ((nm, secs) # m) =
     \<lparr>name = nm, a_seconds = secs, a_color = colors ! (colorIndex mod length colors)\<rparr>
       # emit (colorIndex + 1) m"

definition aggregateEntries :: "TimeEntry list \<Rightarrow> AggregatedEntry list" where
  "aggregateEntries dbEntries = emit 0 (foldl add_entry [] dbEntries)"

section \<open>Numbers\<close>

text \<open>
  The angles are JavaScript numbers. They are modelled as exact reals (no rounding, no
  signed zero), extended with the three non-finite values, which the renderer produces
  when it divides by a zero total.
\<close>

datatype jsnum = Num real | PosInfinity | NegInfinity | NaN

fun js_add :: "jsnum \<Rightarrow> jsnum \<Rightarrow> jsnum" where
  "js_add (Num a) (Num b) = Num (a + b)"
| "js_add NaN _ = NaN"
| "js_add _ NaN = NaN"
| "js_add PosInfinity NegInfinity = NaN"
| "js_add NegInfinity PosInfinity = NaN"
| "js_add PosInfinity _ = PosInfinity"
| "js_add _ PosInfinity = PosInfinity"
| "js_add NegInfinity _ = NegInfinity"
| "js_add _ NegInfinity = NegInfinity"

definition signed_infinity :: "bool \<Rightarrow> jsnum" where
  "signed_infinity positive = (if positive then PosInfinity else NegInfinity)"

fun js_mul :: "jsnum \<Rightarrow> jsnum \<Rightarrow> jsnum" where
  "js_mul (Num a) (Num b) = Num (a * b)"
| "js_mul NaN _ = NaN"
| "js_mul _ NaN = NaN"
| "js_mul PosInfinity (Num b) = (if b = 0 then NaN else signed_infinity (0 < b))"
| "js_mul NegInfinity (Num b) = (if b = 0 then NaN else signed_infinity (b < 0))"
| "js_mul (Num a) PosInfinity = (if a = 0 then NaN else signed_infinity (0 < a))"
| "js_mul (Num a) NegInfinity = (if a = 0 then NaN else signed_infinity (a < 0))"
| "js_mul PosInfinity PosInfinity = PosInfinity"
| "js_mul NegInfinity NegInfinity = PosInfinity"
| "js_mul PosInfinity NegInfinity = NegInfinity"
| "js_mul NegInfinity PosInfinity = NegInfinity"

fun js_div :: "jsnum \<Rightarrow> jsnum \<Rightarrow> jsnum" where
  "js_div (Num a) (Num b) =
     (if b \<noteq> 0 then Num (a / b) else if a = 0 then NaN else signed_infinity (0 < a))"
| "js_div NaN _ = NaN"
| "js_div _ NaN = NaN"
| "js_div (Num a) _ = Num 0"
| "js_div PosInfinity (Num b) = signed_infinity (0 \<le> b)"
| "js_div NegInfinity (Num b) = signed_infinity (b < 0)"
| "js_div _ _ = NaN"

fun js_lt :: "jsnum \<Rightarrow> jsnum \<Rightarrow> bool" where
  "js_lt (Num a) (Num b) = (a < b)"
| "js_lt NaN _ = False"
| "js_lt _ NaN = False"
| "js_lt _ NegInfinity = False"
| "js_lt NegInfinity _ = True"
| "js_lt PosInfinity _ = False"
| "js_lt _ PosInfinity = True"

fun js_le :: "jsnum \<Rightarrow> jsnum \<Rightarrow> bool" where
  "js_le (Num a) (Num b) = (a \<le> b)"
| "js_le NaN _ = False"
| "js_le _ NaN = False"
| "js_le NegInfinity _ = True"
| "js_le _ PosInfinity = True"
| "js_le _ _ = False"

definition js_ge :: "jsnum \<Rightarrow> jsnum \<Rightarrow> bool" where
  "js_ge a b = js_le b a"

text \<open>\<^verbatim>\<open>Math.atan2(y, x)\<close>: the angle of the point \<open>(x, y)\<close>, in \<open>(-\<pi>, \<pi>]\<close>.\<close>

definition atan2 :: "real \<Rightarrow> real \<Rightarrow> real" where
  "atan2 y x =
     (if 0 < x then arctan (y / x)
      else if x < 0 then (if 0 \<le> y then arctan (y / x) + pi else arctan (y / x) - pi)
      else if 0 < y then pi / 2
      else if y < 0 then - pi / 2
      else 0)"

section \<open>renderPieChart: the slice layout\<close>

text \<open>
  Of a slice the model keeps what the hit tester reads. The field \<open>percentage\<close> holds
  the number \<^verbatim>\<open>(seconds / total) * 100\<close>; the source stores its one-decimal rendering,
  a display string. The drawing calls on the canvas context leave no trace in the state
  and are not modelled.
\<close>

record Slice =
  startAngle :: jsnum
  endAngle :: jsnum
  s_name :: string
  s_seconds :: int
  percentage :: jsnum

datatype render_result = NotRendered | Placeholder | Pie "Slice list"

definition sliceAngle_of :: "int \<Rightarrow> AggregatedEntry \<Rightarrow> jsnum" where
  "sliceAngle_of total_seconds entry =
     js_mul (js_mul (js_div (Num (real_of_int (a_seconds entry))) (Num (real_of_int total_seconds)))
       (Num 2)) (Num pi)"

fun layout :: "int \<Rightarrow> jsnum \<Rightarrow> AggregatedEntry list \<Rightarrow> Slice list" where
  "layout total_seconds currentAngle [] = []"
| "layout total_seconds currentAngle (entry # rest) =
     (let sliceAngle = sliceAngle_of total_seconds entry
      in \<lparr>startAngle = currentAngle,
          endAngle = js_add currentAngle sliceAngle,
          s_name = name entry,
          s_seconds = a_seconds entry,
          percentage = js_mul (js_div (Num (real_of_int (a_seconds entry)))
                                 (Num (real_of_int total_seconds))) (Num 100)\<rparr>
         # layout total_seconds (js_add currentAngle sliceAngle) rest)"

text \<open>
  \<open>surface\<close> says whether the canvas and its 2D context exist. The result \<open>Placeholder\<close>
  is the path that writes "No data to display" and returns.
\<close>

definition renderPieChart :: "bool \<Rightarrow> AggregatedEntry list \<Rightarrow> render_result" where
  "renderPieChart surface entries =
     (if \<not> surface then NotRendered
      else if length entries = 0 then Placeholder
      else let total_seconds = foldl (\<lambda>sum entry. sum + a_seconds entry) 0 entries
           in Pie (layout total_seconds (Num (- pi / 2)) entries))"

text \<open>\<^verbatim>\<open>setSlices(newSlices)\<close> is reached on the last path only.\<close>

definition slices_after :: "render_result \<Rightarrow> Slice list \<Rightarrow> Slice list" where
  "slices_after r old = (case r of Pie newSlices \<Rightarrow> newSlices | _ \<Rightarrow> old)"

section \<open>getSliceAtPosition\<close>

record Canvas =
  width :: nat
  height :: nat
  rect_left :: real
  rect_top :: real

definition normalize :: "jsnum \<Rightarrow> jsnum" where
  "normalize a = (if js_lt a (Num 0) then js_add a (Num (2 * pi)) else a)"

fun find_slice :: "real \<Rightarrow> Slice list \<Rightarrow> Slice option" where
  "find_slice angle [] = None"
| "find_slice angle (slice # rest) =
     (let start' = normalize (startAngle slice);
          end' = normalize (endAngle slice)
      in if js_lt end' start' then
           (if js_ge (Num angle) start' \<or> js_le (Num angle) end' then Some slice
            else find_slice angle rest)
         else
           (if js_ge (Num angle) start' \<and> js_le (Num angle) end' then Some slice
            else find_slice angle rest))"

definition pointer_angle :: "real \<Rightarrow> real \<Rightarrow> real" where
  "pointer_angle dy dx =
     (let angle = atan2 dy dx + pi / 2
      in if angle < 0 then angle + 2 * pi else angle)"

definition getSliceAtPosition :: "Canvas option \<Rightarrow> Slice list \<Rightarrow> real \<Rightarrow> real \<Rightarrow> Slice option" where
  "getSliceAtPosition canvasRef slices x y =
     (case canvasRef of
        None \<Rightarrow> None
      | Some canvas \<Rightarrow>
          if length slices = 0 then None
          else
            let mouseX = x - rect_left canvas;
                mouseY = y - rect_top canvas;
                centerX = real (width canvas) / 2;
                centerY = real (height canvas) / 2;
                radius = min centerX centerY - 20;
                dx = mouseX - centerX;
                dy = mouseY - centerY;
                distance = sqrt (dx * dx + dy * dy)
            in if distance > radius then None
               else find_slice (pointer_angle dy dx) slices)"

text \<open>
  The second copy of the component (\<^verbatim>\<open>src/unnamed/part_001\<close>) differs in the wrap branch:
  it joins the two comparisons with \<^verbatim>\<open>??\<close>, which yields its right operand only when
  the left one is \<^verbatim>\<open>null\<close> or \<^verbatim>\<open>undefined\<close>; a comparison never is.
\<close>

definition nullish :: "'a option \<Rightarrow> 'a \<Rightarrow> 'a" where
  "nullish l r = (case l of None \<Rightarrow> r | Some v \<Rightarrow> v)"

fun find_slice_part_001 :: "real \<Rightarrow> Slice list \<Rightarrow> Slice option" where
  "find_slice_part_001 angle [] = None"
| "find_slice_part_001 angle (slice # rest) =
     (let start' = normalize (startAngle slice);
          end' = normalize (endAngle slice)
      in if js_lt end' start' then
           (if nullish (Some (js_ge (Num angle) start')) (js_le (Num angle) end') then Some slice
            else find_slice_part_001 angle rest)
         else
           (if js_ge (Num angle) start' \<and> js_le (Num angle) end' then Some slice
            else find_slice_part_001 angle rest))"

definition getSliceAtPosition_part_001 ::
    "Canvas option \<Rightarrow> Slice list \<Rightarrow> real \<Rightarrow> real \<Rightarrow> Slice option" where
  "getSliceAtPosition_part_001 canvasRef slices x y =
     (case canvasRef of
        None \<Rightarrow> None
      | Some canvas \<Rightarrow>
          if length slices = 0 then None
          else
            let mouseX = x - rect_left canvas;
                mouseY = y - rect_top canvas;
                centerX = real (width canvas) / 2;
                centerY = real (height canvas) / 2;
                radius = min centerX centerY - 20;
                dx = mouseX - centerX;
                dy = mouseY - centerY;
                distance = sqrt (dx * dx + dy * dy)
            in if distance > radius then None
               else find_slice_part_001 (pointer_angle dy dx) slices)"

section \<open>The timer session and the storage actions\<close>

definition is_space :: "char \<Rightarrow> bool" where
  "is_space c = (c \<in> set [CHR 0x20, CHR 0x09, CHR 0x0A, CHR 0x0B, CHR 0x0C, CHR 0x0D])"

text \<open>\<^verbatim>\<open>String.prototype.trim\<close>, on ASCII white space.\<close>

definition trim :: "string \<Rightarrow> string" where
  "trim s = rev (dropWhile is_space (rev (dropWhile is_space s)))"

text \<open>
  The component's state: the \<^verbatim>\<open>useState\<close> cells and the interval reference. A running
  interval is its period and the start instant its callback has captured. What a handler
  does beyond the state is listed as its effects, in order.
\<close>

record interval =
  period_ms :: int
  started :: int

record ui_state =
  entries :: "AggregatedEntry list"
  allEntries :: "TimeEntry list"
  cur_category :: string
  isRunning :: bool
  elapsedSeconds :: int
  startTime :: "int option"
  intervalRef :: "interval option"
  slices :: "Slice list"

datatype effect =
    Alert string
  | ConsoleError string
  | Insert string string int string
  | Delete int string
  | Select string

text \<open>\<open>now\<close> is the value of \<^verbatim>\<open>Date.now()\<close>, in milliseconds.\<close>

definition startTimer :: "int \<Rightarrow> ui_state \<Rightarrow> ui_state \<times> effect list" where
  "startTimer now st =
     (if trim (cur_category st) = [] then (st, [Alert ''Please enter a task name!''])
      else (st\<lparr>startTime := Some now, elapsedSeconds := 0, isRunning := True,
               intervalRef := Some \<lparr>period_ms = 1000, started = now\<rparr>\<rparr>, []))"

text \<open>The interval's callback, run at \<open>currentTime\<close>.\<close>

definition on_interval :: "int \<Rightarrow> ui_state \<Rightarrow> ui_state" where
  "on_interval currentTime st =
     (case intervalRef st of
        None \<Rightarrow> st
      | Some iv \<Rightarrow> st\<lparr>elapsedSeconds := (currentTime - started iv) div 1000\<rparr>)"

text \<open>
  The storage is outside the program: the answers of its calls are parameters.
  \<open>insert_error\<close> and \<open>delete_error\<close> are the \<^verbatim>\<open>error\<close> of the answer, \<open>updatedEntries\<close>
  the \<^verbatim>\<open>data\<close> of the select that follows, \<open>random\<close> the value of \<^verbatim>\<open>Math.random()\<close>.
\<close>

definition refetch :: "TimeEntry list option \<Rightarrow> ui_state \<Rightarrow> ui_state" where
  "refetch updatedEntries st =
     (case updatedEntries of
        None \<Rightarrow> st
      | Some d \<Rightarrow> st\<lparr>allEntries := d, entries := aggregateEntries d\<rparr>)"

definition stopTimer ::
    "real \<Rightarrow> string option \<Rightarrow> TimeEntry list option \<Rightarrow> string \<Rightarrow> ui_state
      \<Rightarrow> ui_state \<times> effect list" where
  "stopTimer random insert_error updatedEntries userId st =
     (let st1 = st\<lparr>intervalRef := None, isRunning := False\<rparr>;
          entryColor = colors ! nat \<lfloor>random * real (length colors)\<rfloor>;
          ins = Insert userId (trim (cur_category st)) (elapsedSeconds st) entryColor
      in case insert_error of
           Some err \<Rightarrow>
             (st1, [ins, ConsoleError ''Error saving time entry:'',
                    Alert ''Failed to save time entry''])
         | None \<Rightarrow>
             ((refetch updatedEntries st1)
                \<lparr>cur_category := [], elapsedSeconds := 0, startTime := None\<rparr>,
              [ins, Select userId]))"

definition deleteEntry ::
    "string option \<Rightarrow> TimeEntry list option \<Rightarrow> string \<Rightarrow> int \<Rightarrow> ui_state
      \<Rightarrow> ui_state \<times> effect list" where
  "deleteEntry delete_error updatedEntries userId ident st =
     (case delete_error of
        Some err \<Rightarrow>
          (st, [Delete ident userId, ConsoleError ''Error deleting time entry:'',
                Alert ''Failed to delete time entry''])
      | None \<Rightarrow> (refetch updatedEntries st, [Delete ident userId, Select userId]))"

section \<open>Notions used in the statements\<close>

text \<open>The key under which an entry is tallied.\<close>

definition key_of :: "TimeEntry \<Rightarrow> string" where
  "key_of e = toLowerCase (category e)"

text \<open>The distinct elements of a list, in the order of their first appearance.\<close>

fun first_appearance :: "string list \<Rightarrow> string list" where
  "first_appearance [] = []"
| "first_appearance (k # ks) = k # removeAll k (first_appearance ks)"

text \<open>Reading a decimal field back.\<close>

definition is_digit :: "char \<Rightarrow> bool" where
  "is_digit c = (c \<in> set ''0123456789'')"

definition digit_value :: "char \<Rightarrow> nat" where
  "digit_value c =
     (case map_of (zip ''0123456789'' [0, 1, 2, 3, 4, 5, 6, 7, 8, 9]) c of
        None \<Rightarrow> 0
      | Some d \<Rightarrow> d)"

definition decimal :: "string \<Rightarrow> nat" where
  "decimal s = foldl (\<lambda>a c. 10 * a + digit_value c) 0 s"

text \<open>
  A field \<open>f\<close> renders \<open>k\<close> zero-padded to two places: only digits, the value \<open>k\<close>, two
  characters when \<open>k\<close> has at most two digits, and no leading zero beyond that.
\<close>

definition field_ok :: "string \<Rightarrow> nat \<Rightarrow> bool" where
  "field_ok f k \<longleftrightarrow> 2 \<le> length f \<and> (k < 100 \<longrightarrow> length f = 2) \<and> (\<forall>c\<in>set f. is_digit c)
     \<and> decimal f = k \<and> (2 < length f \<longrightarrow> hd f \<noteq> CHR ''0'')"

text \<open>The total of an aggregation, and the share of the full turn that an entry is due.\<close>

definition total_of :: "AggregatedEntry list \<Rightarrow> int" where
  "total_of es = sum_list (map a_seconds es)"

definition ideal_width :: "int \<Rightarrow> AggregatedEntry \<Rightarrow> real" where
  "ideal_width total_seconds entry =
     real_of_int (a_seconds entry) / real_of_int total_seconds * (2 * pi)"

text \<open>A time entry with the given category and duration, the other columns blank.\<close>

definition entry_of :: "string \<Rightarrow> int \<Rightarrow> TimeEntry" where
  "entry_of c n =
     \<lparr>entry_id = 0, category = c, seconds = n, user_id = [], created_at = [], color = []\<rparr>"

definition category_of :: "string \<Rightarrow> int \<Rightarrow> AggregatedEntry" where
  "category_of c n = \<lparr>name = c, a_seconds = n, a_color = colors ! 0\<rparr>"

text \<open>A number that is neither \<open>NaN\<close> nor infinite.\<close>

definition finite_num :: "jsnum \<Rightarrow> bool" where
  "finite_num v = (case v of Num r \<Rightarrow> True | _ \<Rightarrow> False)"

text \<open>
  The pointer relative to the centre of the canvas, its distance from the centre and the
  radius of the pie, as \<open>getSliceAtPosition\<close> computes them.
\<close>

definition offset_x :: "Canvas \<Rightarrow> real \<Rightarrow> real" where
  "offset_x canvas x = x - rect_left canvas - real (width canvas) / 2"

definition offset_y :: "Canvas \<Rightarrow> real \<Rightarrow> real" where
  "offset_y canvas y = y - rect_top canvas - real (height canvas) / 2"

definition distance_of :: "Canvas \<Rightarrow> real \<Rightarrow> real \<Rightarrow> real" where
  "distance_of canvas x y =
     sqrt (offset_x canvas x * offset_x canvas x + offset_y canvas y * offset_y canvas y)"

definition radius_of :: "Canvas \<Rightarrow> real" where
  "radius_of canvas = min (real (width canvas) / 2) (real (height canvas) / 2) - 20"

text \<open>The test that the loop of \<open>getSliceAtPosition\<close> applies to a slice.\<close>

definition in_span :: "real \<Rightarrow> Slice \<Rightarrow> bool" where
  "in_span angle slice =
     (let start' = normalize (startAngle slice);
          end' = normalize (endAngle slice)
      in if js_lt end' start' then js_ge (Num angle) start' \<or> js_le (Num angle) end'
         else js_ge (Num angle) start' \<and> js_le (Num angle) end')"

text \<open>Sample data: a 240 by 240 canvas at the origin (radius 100), and two pies.\<close>

definition sample_canvas :: Canvas where
  "sample_canvas = \<lparr>width = 240, height = 240, rect_left = 0, rect_top = 0\<rparr>"

definition two_halves :: "Slice list" where
  "two_halves = slices_after (renderPieChart True [category_of ''code'' 1, category_of ''rest'' 1]) []"

definition one_category :: "Slice list" where
  "one_category = slices_after (renderPieChart True [category_of ''code'' 1]) []"

text \<open>Sample sessions.\<close>

definition running_session :: ui_state where
  "running_session =
     \<lparr>entries = [], allEntries = [], cur_category = ''code'', isRunning = True,
      elapsedSeconds = 5, startTime = Some 1000,
      intervalRef = Some \<lparr>period_ms = 1000, started = 1000\<rparr>, slices = []\<rparr>"

definition idle_session :: "string \<Rightarrow> ui_state" where
  "idle_session c =
     \<lparr>entries = [], allEntries = [], cur_category = c, isRunning = False,
      elapsedSeconds = 0, startTime = None, intervalRef = None, slices = []\<rparr>"

section \<open>Aggregation: totals, buckets, order\<close>

lemma or_zero_simps: "or_zero None = 0" "or_zero (Some v) = v"
  by (simp_all add: or_zero_def)

lemma keys_map_set:
  "map fst (map_set k v m) = (if k \<in> set (map fst m) then map fst m else map fst m @ [k])"
  by (induction m) (auto simp: rev_image_eqI)

lemma map_get_map_set: "map_get (map_set k v m) k' = (if k' = k then Some v else map_get m k')"
  by (induction m) auto

lemma sum_map_set:
  "sum_list (map snd (map_set k (or_zero (map_get m k) + v) m)) = sum_list (map snd m) + v"
  by (induction m) (auto simp: or_zero_simps)

lemma map_get_None_iff: "map_get m k = None \<longleftrightarrow> k \<notin> set (map fst m)"
  by (induction m) (auto simp: rev_image_eqI split: if_splits)

lemma map_get_distinct: "distinct (map fst m) \<Longrightarrow> (k, v) \<in> set m \<Longrightarrow> map_get m k = Some v"
  by (induction m) (auto simp: rev_image_eqI)

lemma keys_add_entry:
  "map fst (add_entry m e) =
     (if key_of e \<in> set (map fst m) then map fst m else map fst m @ [key_of e])"
  by (simp add: add_entry_def key_of_def Let_def keys_map_set)

lemma sum_add_entry: "sum_list (map snd (add_entry m e)) = sum_list (map snd m) + seconds e"
  by (simp add: add_entry_def Let_def sum_map_set)

lemma val_add_entry:
  "or_zero (map_get (add_entry m e) k) =
     or_zero (map_get m k) + (if key_of e = k then seconds e else 0)"
  by (simp add: add_entry_def key_of_def Let_def map_get_map_set or_zero_simps)

lemma distinct_add_entry: "distinct (map fst m) \<Longrightarrow> distinct (map fst (add_entry m e))"
  by (simp add: keys_add_entry)

lemma sum_foldl_add_entry:
  "sum_list (map snd (foldl add_entry m es)) = sum_list (map snd m) + sum_list (map seconds es)"
  by (induction es arbitrary: m) (simp_all add: sum_add_entry)

lemma val_foldl_add_entry:
  "or_zero (map_get (foldl add_entry m es) k) =
     or_zero (map_get m k) + sum_list (map seconds (filter (\<lambda>e. key_of e = k) es))"
  by (induction es arbitrary: m) (simp_all add: val_add_entry)

lemma distinct_foldl_add_entry:
  "distinct (map fst m) \<Longrightarrow> distinct (map fst (foldl add_entry m es))"
  by (induction es arbitrary: m) (simp_all add: distinct_add_entry)

lemma emit_seconds: "map a_seconds (emit i m) = map snd m"
  by (induction i m rule: emit.induct) simp_all

lemma emit_names: "map name (emit i m) = map fst m"
  by (induction i m rule: emit.induct) simp_all

lemma emit_pairs: "map (\<lambda>r. (name r, a_seconds r)) (emit i m) = m"
  by (induction i m rule: emit.induct) simp_all

lemma emit_length: "length (emit i m) = length m"
  by (induction i m rule: emit.induct) simp_all

lemma emit_color: "j < length m \<Longrightarrow> a_color (emit i m ! j) = colors ! ((i + j) mod length colors)"
proof (induction i m arbitrary: j rule: emit.induct)
  case (1 colorIndex)
  then show ?case by simp
next
  case (2 colorIndex nm secs m)
  then show ?case by (cases j) simp_all
qed

lemma aggregate_bucket:
  assumes "r \<in> set (aggregateEntries es)"
  shows "a_seconds r = sum_list (map seconds (filter (\<lambda>e. toLowerCase (category e) = name r) es))"
proof -
  let ?m = "foldl add_entry [] es"
  from assms have "(name r, a_seconds r) \<in> set (map (\<lambda>r. (name r, a_seconds r)) (emit 0 ?m))"
    by (auto simp: aggregateEntries_def)
  then have "(name r, a_seconds r) \<in> set ?m"
    by (simp only: emit_pairs)
  moreover have "distinct (map fst ?m)"
    by (rule distinct_foldl_add_entry) simp
  ultimately have "map_get ?m (name r) = Some (a_seconds r)"
    by (rule map_get_distinct[rotated])
  then have "a_seconds r = or_zero (map_get ?m (name r))"
    by (simp add: or_zero_simps)
  also have "\<dots> = sum_list (map seconds (filter (\<lambda>e. key_of e = name r) es))"
    by (simp add: val_foldl_add_entry or_zero_simps)
  finally show ?thesis by (simp add: key_of_def)
qed

lemma aggregate_total:
  "sum_list (map a_seconds (aggregateEntries es)) = sum_list (map seconds es)"
  by (simp add: aggregateEntries_def emit_seconds sum_foldl_add_entry)

lemma filter_removeAll_absorb: "\<not> P k \<Longrightarrow> filter P (removeAll k xs) = filter P xs"
  by (induction xs) auto

lemma keys_foldl_add_entry:
  "map fst (foldl add_entry m es) =
     map fst m @ filter (\<lambda>k. k \<notin> set (map fst m)) (first_appearance (map key_of es))"
proof (induction es arbitrary: m)
  case Nil
  then show ?case by simp
next
  case (Cons e es)
  show ?case
  proof (cases "key_of e \<in> set (map fst m)")
    case True
    then have "map fst (add_entry m e) = map fst m"
      by (simp add: keys_add_entry)
    with True show ?thesis
      by (simp add: Cons.IH filter_removeAll_absorb)
  next
    case False
    then have "map fst (add_entry m e) = map fst m @ [key_of e]"
      by (simp add: keys_add_entry)
    with False show ?thesis
      by (simp add: Cons.IH removeAll_filter_not_eq conj_commute eq_commute)
  qed
qed

lemma distinct_first_appearance: "distinct (first_appearance ks)"
  by (induction ks) (simp_all add: distinct_removeAll)

lemma set_first_appearance: "set (first_appearance ks) = set ks"
  by (induction ks) auto

lemma names_aggregateEntries:
  "map name (aggregateEntries es) = first_appearance (map key_of es)"
  by (simp add: aggregateEntries_def emit_names keys_foldl_add_entry)

lemma length_colors: "length colors = 12"
  by (simp add: colors_def)

lemma color_aggregateEntries:
  assumes "j < length (aggregateEntries es)"
  shows "a_color (aggregateEntries es ! j) = colors ! (j mod 12)"
proof -
  from assms have "j < length (foldl add_entry [] es)"
    by (simp add: aggregateEntries_def emit_length)
  then show ?thesis
    using emit_color[of j "foldl add_entry [] es" 0]
    by (simp add: aggregateEntries_def length_colors)
qed

lemma bucket_of_entry:
  assumes "e \<in> set es"
  shows "\<exists>!r. r \<in> set (aggregateEntries es) \<and> name r = toLowerCase (category e)"
proof -
  let ?agg = "aggregateEntries es"
  have names: "map name ?agg = first_appearance (map key_of es)"
    by (rule names_aggregateEntries)
  from assms have "key_of e \<in> set (map key_of es)" by simp
  then have "key_of e \<in> set (map name ?agg)"
    by (simp only: names set_first_appearance)
  then obtain r where r: "r \<in> set ?agg" "name r = key_of e" by auto
  have "distinct (map name ?agg)"
    by (simp only: names distinct_first_appearance)
  then have inj: "inj_on name (set ?agg)"
    by (simp add: distinct_map)
  have "r' = r" if "r' \<in> set ?agg" "name r' = key_of e" for r'
    using inj_onD[OF inj, of r' r] r that by simp
  with r show ?thesis
    unfolding key_of_def by blast
qed

text \<open>
  C1. Aggregation keeps the total: the \<open>seconds\<close> of the records returned by
  \<open>aggregateEntries\<close> add up to the \<open>seconds\<close> of the input entries, and the \<open>seconds\<close> of
  each record is the sum over exactly the input entries whose lowercased category is the
  record's \<open>name\<close>.
\<close>

theorem aggregateEntries_preserves_seconds:
  "sum_list (map a_seconds (aggregateEntries es)) = sum_list (map seconds es)
   \<and> (\<forall>r\<in>set (aggregateEntries es).
         a_seconds r =
           sum_list (map seconds (filter (\<lambda>e. toLowerCase (category e) = name r) es)))"
  using aggregate_total aggregate_bucket by blast

theorem aggregateEntries_preserves_seconds_witness:
  "sum_list (map a_seconds
       (aggregateEntries [entry_of ''Work'' 5, entry_of ''play'' 7, entry_of ''work'' 3])) = 15
   \<and> \<lparr>name = ''work'', a_seconds = 8, a_color = ''#667eea''\<rparr>
        \<in> set (aggregateEntries [entry_of ''Work'' 5, entry_of ''play'' 7, entry_of ''work'' 3])
   \<and> (8::int) = sum_list (map seconds (filter (\<lambda>e. toLowerCase (category e) = ''work'')
        [entry_of ''Work'' 5, entry_of ''play'' 7, entry_of ''work'' 3]))"
  using aggregateEntries_preserves_seconds
    [of "[entry_of ''Work'' 5, entry_of ''play'' 7, entry_of ''work'' 3]"]
  by (simp add: aggregateEntries_def entry_of_def add_entry_def toLowerCase_def lower_char_def
      upper_letters_def lower_letters_def or_zero_def colors_def)

text \<open>
  C6. Aggregation is case-insensitive and ordered by first appearance, with the palette
  colours given by the position modulo 12: the entries \<open>Code\<close>/3600 and \<open>code\<close>/1800 give the
  single record \<open>code\<close>/5400 with the first palette colour; in general the names of the
  output are the lowercased categories of the input in the order of their first
  appearance, without repetition, every input entry falls into exactly one record (the
  one named by its lowercased category), and the record at position \<open>j\<close> has the colour
  \<open>j mod 12\<close> of the palette.
\<close>

theorem aggregateEntries_case_insensitive_first_seen:
  "aggregateEntries [e1\<lparr>category := ''Code'', seconds := 3600\<rparr>,
                     e2\<lparr>category := ''code'', seconds := 1800\<rparr>]
     = [\<lparr>name = ''code'', a_seconds = 5400, a_color = colors ! 0\<rparr>]
   \<and> map name (aggregateEntries es) = first_appearance (map (\<lambda>e. toLowerCase (category e)) es)
   \<and> distinct (map name (aggregateEntries es))
   \<and> (\<forall>e\<in>set es. \<exists>!r. r \<in> set (aggregateEntries es) \<and> name r = toLowerCase (category e))
   \<and> (\<forall>j<length (aggregateEntries es). a_color (aggregateEntries es ! j) = colors ! (j mod 12))"
proof (intro conjI ballI allI impI)
  show "aggregateEntries [e1\<lparr>category := ''Code'', seconds := 3600\<rparr>,
                          e2\<lparr>category := ''code'', seconds := 1800\<rparr>]
     = [\<lparr>name = ''code'', a_seconds = 5400, a_color = colors ! 0\<rparr>]"
    by (simp add: aggregateEntries_def add_entry_def toLowerCase_def lower_char_def
        upper_letters_def lower_letters_def or_zero_def)
next
  show names: "map name (aggregateEntries es)
      = first_appearance (map (\<lambda>e. toLowerCase (category e)) es)"
    using names_aggregateEntries[of es] by (simp add: key_of_def[abs_def])
  show "distinct (map name (aggregateEntries es))"
    by (simp only: names distinct_first_appearance)
next
  fix e assume "e \<in> set es"
  then show "\<exists>!r. r \<in> set (aggregateEntries es) \<and> name r = toLowerCase (category e)"
    by (rule bucket_of_entry)
next
  fix j assume "j < length (aggregateEntries es)"
  then show "a_color (aggregateEntries es ! j) = colors ! (j mod 12)"
    by (rule color_aggregateEntries)
qed

theorem aggregateEntries_case_insensitive_first_seen_witness:
  "entry_of ''play'' 7 \<in> set [entry_of ''Work'' 5, entry_of ''play'' 7, entry_of ''work'' 3]
   \<and> (\<exists>!r. r \<in> set (aggregateEntries [entry_of ''Work'' 5, entry_of ''play'' 7, entry_of ''work'' 3])
          \<and> name r = toLowerCase (category (entry_of ''play'' 7)))
   \<and> 1 < length (aggregateEntries [entry_of ''Work'' 5, entry_of ''play'' 7, entry_of ''work'' 3])
   \<and> a_color (aggregateEntries [entry_of ''Work'' 5, entry_of ''play'' 7, entry_of ''work'' 3] ! 1)
       = colors ! (1 mod 12)
   \<and> map name (aggregateEntries [entry_of ''Work'' 5, entry_of ''play'' 7, entry_of ''work'' 3])
       = [''work'', ''play'']"
proof -
  let ?es = "[entry_of ''Work'' 5, entry_of ''play'' 7, entry_of ''work'' 3]"
  have agg: "aggregateEntries ?es
      = [\<lparr>name = ''work'', a_seconds = 8, a_color = ''#667eea''\<rparr>,
         \<lparr>name = ''play'', a_seconds = 7, a_color = ''#764ba2''\<rparr>]"
    by (simp add: aggregateEntries_def entry_of_def add_entry_def toLowerCase_def lower_char_def
        upper_letters_def lower_letters_def or_zero_def colors_def)
  have mem: "entry_of ''play'' 7 \<in> set ?es" by simp
  have len: "1 < length (aggregateEntries ?es)" by (simp add: agg)
  note C = aggregateEntries_case_insensitive_first_seen[of _ _ ?es]
  from C mem have "\<exists>!r. r \<in> set (aggregateEntries ?es)
      \<and> name r = toLowerCase (category (entry_of ''play'' 7))"
    by blast
  moreover from C len have "a_color (aggregateEntries ?es ! 1) = colors ! (1 mod 12)"
    by blast
  moreover have "map name (aggregateEntries ?es) = [''work'', ''play'']"
    by (simp add: agg)
  ultimately show ?thesis using mem len by blast
qed

section \<open>formatTime: the fields\<close>

lemma digit_cases: "d < 10 \<Longrightarrow> d = 0 \<or> d = 1 \<or> d = 2 \<or> d = 3 \<or> d = 4 \<or> d = 5 \<or> d = 6 \<or> d = 7 \<or> d = 8 \<or> d = (9::nat)"
  by arith

lemma digit_value_digit_char: "d < 10 \<Longrightarrow> digit_value (digit_char d) = d"
  using digit_cases[of d] by (auto simp: digit_value_def digit_char_def)

lemma is_digit_digit_char: "d < 10 \<Longrightarrow> is_digit (digit_char d)"
  using digit_cases[of d] by (auto simp: is_digit_def digit_char_def)

lemma digit_value_zero: "digit_value CHR ''0'' = 0"
  by (simp add: digit_value_def)

lemma is_digit_zero: "is_digit CHR ''0''"
  by (simp add: is_digit_def)

lemma digit_char_zero: "digit_char 0 = CHR ''0''"
  by (simp add: digit_char_def)

lemma decimal_snoc: "decimal (s @ [c]) = 10 * decimal s + digit_value c"
  by (simp add: decimal_def)

lemma decimal_string_of_nat: "decimal (string_of_nat n) = n"
proof (induction n rule: string_of_nat.induct)
  case (1 n)
  show ?case
  proof (cases "n < 10")
    case True
    then have "string_of_nat n = [digit_char n]" by (subst string_of_nat.simps) simp
    with True show ?thesis by (simp add: decimal_def digit_value_digit_char)
  next
    case False
    then have "string_of_nat n = string_of_nat (n div 10) @ [digit_char (n mod 10)]"
      by (subst string_of_nat.simps) simp
    with False "1.IH" show ?thesis
      by (simp add: decimal_snoc digit_value_digit_char)
  qed
qed
lemma padStart_zero: "padStart 2 ''0'' s = replicate (2 - length s) CHR ''0'' @ s"
proof -
  have "concat (replicate k ''0'') = replicate k CHR ''0''" for k
    by (induction k) simp_all
  then show ?thesis by (simp add: padStart_def)
qed

lemma string_of_nat_nonempty: "string_of_nat n \<noteq> []"
  by (subst string_of_nat.simps) simp

lemma length_string_of_nat_small: "n < 10 \<Longrightarrow> length (string_of_nat n) = 1"
  by (subst string_of_nat.simps) simp

lemma length_string_of_nat_two: "10 \<le> n \<Longrightarrow> n < 100 \<Longrightarrow> length (string_of_nat n) = 2"
  by (subst string_of_nat.simps) (simp add: length_string_of_nat_small)

lemma length_string_of_nat_ge: "10 \<le> n \<Longrightarrow> 2 \<le> length (string_of_nat n)"
proof -
  assume "10 \<le> n"
  then have "string_of_nat n = string_of_nat (n div 10) @ [digit_char (n mod 10)]"
    by (subst string_of_nat.simps) simp
  moreover have "1 \<le> length (string_of_nat (n div 10))"
    using string_of_nat_nonempty[of "n div 10"] by (cases "string_of_nat (n div 10)") simp_all
  ultimately show ?thesis by simp
qed

lemma string_of_nat_digits: "c \<in> set (string_of_nat n) \<Longrightarrow> is_digit c"
proof (induction n rule: string_of_nat.induct)
  case (1 n)
  show ?case
  proof (cases "n < 10")
    case True
    with "1.prems" show ?thesis by (subst (asm) string_of_nat.simps) (simp add: is_digit_digit_char)
  next
    case False
    then have "string_of_nat n = string_of_nat (n div 10) @ [digit_char (n mod 10)]"
      by (subst string_of_nat.simps) simp
    with False "1.IH" "1.prems" show ?thesis
      by (auto simp: is_digit_digit_char)
  qed
qed

lemma digit_char_nonzero: "0 < d \<Longrightarrow> d < 10 \<Longrightarrow> digit_char d \<noteq> CHR ''0''"
  using digit_cases[of d] by (auto simp: digit_char_def)

lemma hd_string_of_nat: "0 < n \<Longrightarrow> hd (string_of_nat n) \<noteq> CHR ''0''"
proof (induction n rule: string_of_nat.induct)
  case (1 n)
  show ?case
  proof (cases "n < 10")
    case True
    with "1.prems" show ?thesis by (subst string_of_nat.simps) (simp add: digit_char_nonzero)
  next
    case False
    then have "string_of_nat n = string_of_nat (n div 10) @ [digit_char (n mod 10)]"
      by (subst string_of_nat.simps) simp
    moreover from False have "0 < n div 10" by simp
    ultimately show ?thesis
      using False "1.IH" by (simp add: string_of_nat_nonempty)
  qed
qed

lemma decimal_leading_zeros: "decimal (replicate k CHR ''0'' @ s) = decimal s"
proof -
  have "foldl (\<lambda>a c. 10 * a + digit_value c) 0 (replicate k CHR ''0'') = 0"
    by (induction k) (simp_all add: digit_value_zero)
  then show ?thesis by (simp add: decimal_def)
qed

lemma field_padStart: "field_ok (padStart 2 ''0'' (String_of (int k))) k"
proof -
  let ?s = "string_of_nat k"
  have S: "String_of (int k) = ?s" by (simp add: String_of_def)
  consider "k < 10" | "10 \<le> k" "k < 100" | "100 \<le> k" by linarith
  then show ?thesis
  proof cases
    case 1
    then have "?s = [digit_char k]" by (subst string_of_nat.simps) simp
    with 1 show ?thesis
      by (simp add: field_ok_def S padStart_zero is_digit_digit_char decimal_def
          digit_value_digit_char digit_value_zero is_digit_zero)
  next
    case 2
    then have L: "length ?s = 2" by (rule length_string_of_nat_two)
    show ?thesis
      unfolding field_ok_def S padStart_zero L
      using string_of_nat_digits[of _ k] by (simp add: L decimal_string_of_nat)
  next
    case 3
    then have L: "2 \<le> length ?s" by (intro length_string_of_nat_ge) simp
    then have R: "replicate (2 - length ?s) CHR ''0'' = []" by simp
    from 3 have "0 < k" by simp
    then have "hd ?s \<noteq> CHR ''0''" by (rule hd_string_of_nat)
    with 3 L show ?thesis
      unfolding field_ok_def S padStart_zero R
      using string_of_nat_digits[of _ k] by (simp add: decimal_string_of_nat)
  qed
qed

lemma field_okD:
  assumes "field_ok f k"
  shows "2 \<le> length f" and "k < 100 \<Longrightarrow> length f = 2" and "c \<in> set f \<Longrightarrow> is_digit c"
    and "decimal f = k" and "2 < length f \<Longrightarrow> hd f \<noteq> CHR ''0''"
  using assms by (simp_all add: field_ok_def)

lemma formatTime_nonneg:
  assumes "0 \<le> n"
  shows "formatTime n = padStart 2 ''0'' (String_of (int (nat (n div 3600)))) @ '':''
           @ padStart 2 ''0'' (String_of (int (nat (n mod 3600 div 60)))) @ '':''
           @ padStart 2 ''0'' (String_of (int (nat (n mod 60))))"
proof -
  from assms have "js_rem n 3600 = n mod 3600" "js_rem n 60 = n mod 60"
    by (simp_all add: js_rem_def sgn_if)
  moreover from assms have "0 \<le> n div 3600" "0 \<le> n mod 3600 div 60" "0 \<le> n mod 60"
    by (simp_all add: pos_imp_zdiv_nonneg_iff)
  ultimately show ?thesis by (simp add: formatTime_def Let_def)
qed

text \<open>
  C9. \<open>formatTime 3661\<close> is \<open>01:01:01\<close>; in general a non-negative number of seconds is rendered
  as three fields of decimal digits separated by colons, the hours (at least two
  characters, zero-padded), the minutes and the seconds (two characters each), whose values
  are the hours, minutes and seconds of the input.
\<close>

theorem formatTime_fields:
  "formatTime 3661 = ''01:01:01'' \<and>
   (0 \<le> n \<longrightarrow> (\<exists>h m s. formatTime n = h @ '':'' @ m @ '':'' @ s
       \<and> 2 \<le> length h \<and> length m = 2 \<and> length s = 2
       \<and> (\<forall>c\<in>set (h @ m @ s). is_digit c)
       \<and> int (decimal h) = n div 3600 \<and> int (decimal m) = n mod 3600 div 60
       \<and> int (decimal s) = n mod 60
       \<and> (2 < length h \<longrightarrow> hd h \<noteq> CHR ''0'')))"
proof (intro conjI impI)
  show "formatTime 3661 = ''01:01:01''"
    by (simp add: formatTime_def js_rem_def String_of_def padStart_def digit_char_def
        string_of_nat.simps)
next
  assume n: "0 \<le> n"
  let ?H = "nat (n div 3600)" and ?M = "nat (n mod 3600 div 60)" and ?S = "nat (n mod 60)"
  let ?h = "padStart 2 ''0'' (String_of (int ?H))"
  let ?m = "padStart 2 ''0'' (String_of (int ?M))"
  let ?s = "padStart 2 ''0'' (String_of (int ?S))"
  have h: "field_ok ?h ?H" and m: "field_ok ?m ?M" and s: "field_ok ?s ?S"
    by (rule field_padStart)+
  from n have b: "?M < 100" "?S < 100" by simp_all
  from n have v: "int ?H = n div 3600" "int ?M = n mod 3600 div 60" "int ?S = n mod 60"
    by (simp_all add: pos_imp_zdiv_nonneg_iff)
  have 1: "formatTime n = ?h @ '':'' @ ?m @ '':'' @ ?s"
    using n by (rule formatTime_nonneg)
  have 2: "2 \<le> length ?h" "length ?m = 2" "length ?s = 2"
    using field_okD(1)[OF h] field_okD(2)[OF m b(1)] field_okD(2)[OF s b(2)] .
  have 3: "\<forall>c\<in>set (?h @ ?m @ ?s). is_digit c"
    unfolding set_append using field_okD(3)[OF h] field_okD(3)[OF m] field_okD(3)[OF s]
    by blast
  have 4: "int (decimal ?h) = n div 3600" "int (decimal ?m) = n mod 3600 div 60"
      "int (decimal ?s) = n mod 60"
    unfolding field_okD(4)[OF h] field_okD(4)[OF m] field_okD(4)[OF s] by (rule v)+
  have 5: "2 < length ?h \<longrightarrow> hd ?h \<noteq> CHR ''0''"
    using field_okD(5)[OF h] by blast
  show "\<exists>h m s. formatTime n = h @ '':'' @ m @ '':'' @ s
       \<and> 2 \<le> length h \<and> length m = 2 \<and> length s = 2
       \<and> (\<forall>c\<in>set (h @ m @ s). is_digit c)
       \<and> int (decimal h) = n div 3600 \<and> int (decimal m) = n mod 3600 div 60
       \<and> int (decimal s) = n mod 60
       \<and> (2 < length h \<longrightarrow> hd h \<noteq> CHR ''0'')"
    by (intro exI conjI) (rule 1 2 3 4 5)+
qed

theorem formatTime_fields_witness:
  "(0::int) \<le> 86399 \<and> formatTime 86399 = ''23:59:59'' \<and>
   (\<exists>h m s. formatTime 86399 = h @ '':'' @ m @ '':'' @ s
       \<and> 2 \<le> length h \<and> length m = 2 \<and> length s = 2
       \<and> (\<forall>c\<in>set (h @ m @ s). is_digit c)
       \<and> int (decimal h) = 86399 div 3600 \<and> int (decimal m) = 86399 mod 3600 div 60
       \<and> int (decimal s) = 86399 mod 60
       \<and> (2 < length h \<longrightarrow> hd h \<noteq> CHR ''0''))"
proof -
  have "formatTime 86399 = ''23:59:59''"
    by (simp add: formatTime_def js_rem_def String_of_def padStart_def digit_char_def
        string_of_nat.simps)
  then show ?thesis
    using formatTime_fields[of 86399] by simp
qed

section \<open>The slice layout\<close>

lemma foldl_total: "foldl (\<lambda>sum entry. sum + a_seconds entry) acc es = acc + total_of es"
  by (induction es arbitrary: acc) (simp_all add: total_of_def)

lemma sliceAngle_of_Num:
  "t \<noteq> 0 \<Longrightarrow> sliceAngle_of t e = Num (ideal_width t e)"
  by (simp add: sliceAngle_of_def ideal_width_def)

lemma length_layout: "length (layout t c es) = length es"
  by (induction es arbitrary: c) (simp_all add: Let_def)

lemma layout_nth:
  assumes "t \<noteq> 0" and "i < length es"
  shows "startAngle (layout t (Num c) es ! i) = Num (c + sum_list (map (ideal_width t) (take i es)))
       \<and> endAngle (layout t (Num c) es ! i)
           = Num (c + sum_list (map (ideal_width t) (take i es)) + ideal_width t (es ! i))
       \<and> s_name (layout t (Num c) es ! i) = name (es ! i)
       \<and> s_seconds (layout t (Num c) es ! i) = a_seconds (es ! i)"
  using assms
proof (induction es arbitrary: c i)
  case Nil
  then show ?case by simp
next
  case (Cons e es)
  show ?case
  proof (cases i)
    case 0
    with Cons.prems show ?thesis
      by (simp add: Let_def sliceAngle_of_Num)
  next
    case (Suc j)
    with Cons.prems have j: "j < length es" by simp
    from Cons.IH[OF Cons.prems(1) j, of "c + ideal_width t e"] Suc Cons.prems(1)
    show ?thesis
      by (simp add: Let_def sliceAngle_of_Num add.assoc)
  qed
qed

lemma sum_ideal_width:
  "sum_list (map (ideal_width t) es) = real_of_int (total_of es) / real_of_int t * (2 * pi)"
  by (induction es) (simp_all add: ideal_width_def total_of_def add_divide_distrib distrib_right)

lemma sum_ideal_width_full:
  "total_of es \<noteq> 0 \<Longrightarrow> sum_list (map (ideal_width (total_of es)) es) = 2 * pi"
  by (simp add: sum_ideal_width)

lemma take_Suc_sum:
  "i < length es \<Longrightarrow> sum_list (map f (take (Suc i) es)) = sum_list (map f (take i es)) + f (es ! i)"
  by (simp add: take_Suc_conv_app_nth)

lemma render_Pie:
  "es \<noteq> [] \<Longrightarrow> renderPieChart True es = Pie (layout (total_of es) (Num (- pi / 2)) es)"
  by (simp add: renderPieChart_def foldl_total)

lemma ideal_width_nonneg: "0 < t \<Longrightarrow> 0 \<le> a_seconds e \<Longrightarrow> 0 \<le> ideal_width t e"
  by (simp add: ideal_width_def)

text \<open>
  C3. For a non-empty aggregation with a positive total, the slices that \<open>renderPieChart\<close>
  builds are one per entry; the first starts at \<open>-\<pi>/2\<close>; every later slice starts where
  the one before it ends; slice \<open>i\<close> spans \<open>(seconds\<^sub>i / total) \<sqdot> 2\<pi>\<close> from its start; the
  widths add up to \<open>2\<pi>\<close>, so the last slice ends at \<open>-\<pi>/2 + 2\<pi>\<close>; and when no entry is
  negative every slice ends at or after its start, so the slices do not overlap.
  Numbers are exact reals here, so the closing equation holds exactly.
\<close>

theorem renderPieChart_slices_contiguous:
  assumes "es \<noteq> []" and "0 < total_of es"
  shows "\<exists>sl. renderPieChart True es = Pie sl \<and> length sl = length es
     \<and> startAngle (sl ! 0) = Num (- pi / 2)
     \<and> (\<forall>i. Suc i < length sl \<longrightarrow> startAngle (sl ! Suc i) = endAngle (sl ! i))
     \<and> (\<forall>i<length sl. \<exists>a. startAngle (sl ! i) = Num a
           \<and> endAngle (sl ! i)
               = Num (a + real_of_int (a_seconds (es ! i)) / real_of_int (total_of es) * (2 * pi)))
     \<and> sum_list (map (\<lambda>e. real_of_int (a_seconds e) / real_of_int (total_of es) * (2 * pi)) es)
          = 2 * pi
     \<and> endAngle (last sl) = Num (- pi / 2 + 2 * pi)
     \<and> ((\<forall>e\<in>set es. 0 \<le> a_seconds e)
          \<longrightarrow> (\<forall>i<length sl. js_le (startAngle (sl ! i)) (endAngle (sl ! i))))"
proof -
  let ?t = "total_of es"
  let ?sl = "layout ?t (Num (- pi / 2)) es"
  from assms have t: "?t \<noteq> 0" by simp
  have len: "length ?sl = length es" by (rule length_layout)
  from assms(1) have pos: "0 < length es" by simp
  have first: "startAngle (?sl ! 0) = Num (- pi / 2)"
    using layout_nth[OF t pos, of "- pi / 2"] by simp
  have contiguous: "startAngle (?sl ! Suc i) = endAngle (?sl ! i)" if "Suc i < length ?sl" for i
  proof -
    from that len have i: "i < length es" and si: "Suc i < length es" by simp_all
    show ?thesis
      using layout_nth[OF t i, of "- pi / 2"] layout_nth[OF t si, of "- pi / 2"]
      by (simp add: take_Suc_sum[OF i])
  qed
  have widths: "\<exists>a. startAngle (?sl ! i) = Num a
           \<and> endAngle (?sl ! i)
               = Num (a + real_of_int (a_seconds (es ! i)) / real_of_int ?t * (2 * pi))"
    if "i < length ?sl" for i
  proof -
    from that len have i: "i < length es" by simp
    show ?thesis
      using layout_nth[OF t i, of "- pi / 2"] by (simp add: ideal_width_def)
  qed
  have total: "sum_list (map (\<lambda>e. real_of_int (a_seconds e) / real_of_int ?t * (2 * pi)) es)
      = 2 * pi"
    using sum_ideal_width_full[OF t] by (simp add: ideal_width_def[abs_def])
  have closes: "endAngle (last ?sl) = Num (- pi / 2 + 2 * pi)"
  proof -
    let ?n = "length es - 1"
    from pos have n: "?n < length es" by simp
    from pos len have "?sl \<noteq> []" by auto
    then have "last ?sl = ?sl ! ?n"
      by (simp add: last_conv_nth length_layout)
    moreover have "sum_list (map (ideal_width ?t) (take ?n es)) + ideal_width ?t (es ! ?n) = 2 * pi"
      using take_Suc_sum[OF n, of "ideal_width ?t"] pos sum_ideal_width_full[OF t] by simp
    ultimately show ?thesis
      using layout_nth[OF t n, of "- pi / 2"] by (simp add: add.assoc)
  qed
  have forward: "js_le (startAngle (?sl ! i)) (endAngle (?sl ! i))"
    if nonneg: "\<forall>e\<in>set es. 0 \<le> a_seconds e" and "i < length ?sl" for i
  proof -
    from that len have i: "i < length es" by simp
    with nonneg have "0 \<le> a_seconds (es ! i)" by simp
    with assms(2) have "0 \<le> ideal_width ?t (es ! i)" by (intro ideal_width_nonneg)
    then show ?thesis
      using layout_nth[OF t i, of "- pi / 2"] by simp
  qed
  show ?thesis
    using render_Pie[OF assms(1)] len first contiguous widths total closes forward by blast
qed

theorem renderPieChart_slices_contiguous_witness:
  "[category_of ''code'' 3, category_of ''rest'' 1] \<noteq> []
   \<and> 0 < total_of [category_of ''code'' 3, category_of ''rest'' 1]
   \<and> 0 \<le> a_seconds (category_of ''code'' 3) \<and> 0 \<le> a_seconds (category_of ''rest'' 1)
   \<and> (\<exists>sl. renderPieChart True [category_of ''code'' 3, category_of ''rest'' 1] = Pie sl
        \<and> length sl = 2
        \<and> startAngle (sl ! 0) = Num (- pi / 2)
        \<and> startAngle (sl ! 1) = endAngle (sl ! 0)
        \<and> endAngle (last sl) = Num (- pi / 2 + 2 * pi)
        \<and> js_le (startAngle (sl ! 1)) (endAngle (sl ! 1)))"
proof -
  let ?es = "[category_of ''code'' 3, category_of ''rest'' 1]"
  have ne: "?es \<noteq> []" by simp
  have tot: "0 < total_of ?es" by (simp add: total_of_def category_of_def)
  have nonneg: "\<forall>e\<in>set ?es. 0 \<le> a_seconds e" by (simp add: category_of_def)
  from renderPieChart_slices_contiguous[OF ne tot] obtain sl where
    sl: "renderPieChart True ?es = Pie sl" "length sl = length ?es"
      "startAngle (sl ! 0) = Num (- pi / 2)"
      "\<forall>i. Suc i < length sl \<longrightarrow> startAngle (sl ! Suc i) = endAngle (sl ! i)"
      "endAngle (last sl) = Num (- pi / 2 + 2 * pi)"
      "(\<forall>e\<in>set ?es. 0 \<le> a_seconds e)
          \<longrightarrow> (\<forall>i<length sl. js_le (startAngle (sl ! i)) (endAngle (sl ! i)))"
    by blast
  from sl(2) have l2: "length sl = 2" by simp
  from sl(4) l2 have c: "startAngle (sl ! 1) = endAngle (sl ! 0)" by simp
  from sl(6) nonneg l2 have f: "js_le (startAngle (sl ! 1)) (endAngle (sl ! 1))" by simp
  have n2: "0 \<le> a_seconds (category_of ''code'' 3)" "0 \<le> a_seconds (category_of ''rest'' 1)"
    by (simp_all add: category_of_def)
  from ne tot n2 sl(1) l2 sl(3) c sl(5) f show ?thesis by blast
qed

lemma js_add_NaN_right: "js_add c NaN = NaN"
  by (cases c) simp_all

lemma js_add_nonfinite: "\<not> finite_num b \<Longrightarrow> \<not> finite_num (js_add a b)"
  by (cases a; cases b) (simp_all add: finite_num_def)

lemma sliceAngle_of_zero_total: "\<not> finite_num (sliceAngle_of 0 e)"
  by (simp add: sliceAngle_of_def finite_num_def signed_infinity_def)

lemma sliceAngle_of_zero_zero: "a_seconds e = 0 \<Longrightarrow> sliceAngle_of 0 e = NaN"
  by (simp add: sliceAngle_of_def)

lemma layout_zero_total: "s \<in> set (layout 0 c es) \<Longrightarrow> \<not> finite_num (endAngle s)"
  by (induction es arbitrary: c)
    (auto simp: Let_def js_add_nonfinite sliceAngle_of_zero_total)

lemma layout_all_zero:
  "\<forall>e\<in>set es. a_seconds e = 0 \<Longrightarrow> s \<in> set (layout 0 c es)
     \<Longrightarrow> endAngle s = NaN \<and> percentage s = NaN"
  by (induction es arbitrary: c)
    (auto simp: Let_def js_add_NaN_right sliceAngle_of_zero_zero)

lemma layout_first: "es \<noteq> [] \<Longrightarrow> startAngle (layout t c es ! 0) = c"
  by (cases es) (simp_all add: Let_def)

text \<open>
  C4, as stated, fails: a single category of zero seconds is not sent to the placeholder.
  One slice is built, and its end angle and percentage are \<open>NaN\<close>, the value of \<open>0 / 0\<close>.
\<close>

theorem zero_total_counterexample:
  "renderPieChart True [\<lparr>name = ''code'', a_seconds = 0, a_color = ''#667eea''\<rparr>]
     = Pie [\<lparr>startAngle = Num (- pi / 2), endAngle = NaN, s_name = ''code'', s_seconds = 0,
             percentage = NaN\<rparr>]"
  by (simp add: renderPieChart_def sliceAngle_of_def)

text \<open>
  C4, amended. The placeholder is drawn exactly when the aggregation is empty. A non-empty
  aggregation whose total is zero is laid out like any other: one slice per entry, the
  first starting at \<open>-\<pi>/2\<close>, each quotient \<open>seconds / total\<close> evaluated with a zero total, so
  that no slice has a finite end angle; when every entry is zero, every end angle and every
  percentage is \<open>NaN\<close>.
\<close>

theorem zero_total_renders_slices:
  "(renderPieChart True es = Placeholder \<longleftrightarrow> es = [])
   \<and> (es \<noteq> [] \<and> total_of es = 0 \<longrightarrow>
        (\<exists>sl. renderPieChart True es = Pie sl \<and> length sl = length es
           \<and> startAngle (sl ! 0) = Num (- pi / 2)
           \<and> (\<forall>s\<in>set sl. \<not> finite_num (endAngle s))
           \<and> ((\<forall>e\<in>set es. a_seconds e = 0)
                \<longrightarrow> (\<forall>s\<in>set sl. endAngle s = NaN \<and> percentage s = NaN))))"
proof (intro conjI impI)
  show "renderPieChart True es = Placeholder \<longleftrightarrow> es = []"
    by (simp add: renderPieChart_def Let_def)
next
  assume a: "es \<noteq> [] \<and> total_of es = 0"
  let ?sl = "layout 0 (Num (- pi / 2)) es"
  from a have r: "renderPieChart True es = Pie ?sl"
    using render_Pie[of es] by simp
  have "length ?sl = length es" by (rule length_layout)
  moreover from a have "startAngle (?sl ! 0) = Num (- pi / 2)"
    by (simp add: layout_first)
  moreover have "\<forall>s\<in>set ?sl. \<not> finite_num (endAngle s)"
    using layout_zero_total by blast
  moreover have "(\<forall>e\<in>set es. a_seconds e = 0)
      \<longrightarrow> (\<forall>s\<in>set ?sl. endAngle s = NaN \<and> percentage s = NaN)"
    using layout_all_zero by blast
  ultimately show "\<exists>sl. renderPieChart True es = Pie sl \<and> length sl = length es
           \<and> startAngle (sl ! 0) = Num (- pi / 2)
           \<and> (\<forall>s\<in>set sl. \<not> finite_num (endAngle s))
           \<and> ((\<forall>e\<in>set es. a_seconds e = 0)
                \<longrightarrow> (\<forall>s\<in>set sl. endAngle s = NaN \<and> percentage s = NaN))"
    using r by blast
qed

theorem zero_total_renders_slices_witness:
  "[category_of ''code'' 0, category_of ''rest'' 0] \<noteq> []
   \<and> total_of [category_of ''code'' 0, category_of ''rest'' 0] = 0
   \<and> a_seconds (category_of ''code'' 0) = 0 \<and> a_seconds (category_of ''rest'' 0) = 0
   \<and> (\<exists>sl. renderPieChart True [category_of ''code'' 0, category_of ''rest'' 0] = Pie sl
         \<and> length sl = 2 \<and> (\<forall>s\<in>set sl. endAngle s = NaN \<and> percentage s = NaN))"
proof -
  let ?es = "[category_of ''code'' 0, category_of ''rest'' 0]"
  have h: "?es \<noteq> [] \<and> total_of ?es = 0" by (simp add: total_of_def category_of_def)
  have z: "\<forall>e\<in>set ?es. a_seconds e = 0" by (simp add: category_of_def)
  from zero_total_renders_slices[of ?es] h obtain sl where
    sl: "renderPieChart True ?es = Pie sl" "length sl = length ?es"
      "(\<forall>e\<in>set ?es. a_seconds e = 0)
                \<longrightarrow> (\<forall>s\<in>set sl. endAngle s = NaN \<and> percentage s = NaN)"
    by blast
  from sl(2) have "length sl = 2" by simp
  moreover from sl(3) z have "\<forall>s\<in>set sl. endAngle s = NaN \<and> percentage s = NaN" by blast
  moreover have "a_seconds (category_of ''code'' 0) = 0" "a_seconds (category_of ''rest'' 0) = 0"
    by (simp_all add: category_of_def)
  ultimately show ?thesis using h sl(1) by blast
qed

section \<open>The hit tester\<close>

lemma getSliceAtPosition_eq:
  "getSliceAtPosition (Some cv) sl x y =
     (if sl = [] then None
      else if distance_of cv x y > radius_of cv then None
      else find_slice (pointer_angle (offset_y cv y) (offset_x cv x)) sl)"
  by (simp add: getSliceAtPosition_def distance_of_def radius_of_def offset_x_def offset_y_def
      Let_def)

lemma getSliceAtPosition_part_001_eq:
  "getSliceAtPosition_part_001 (Some cv) sl x y =
     (if sl = [] then None
      else if distance_of cv x y > radius_of cv then None
      else find_slice_part_001 (pointer_angle (offset_y cv y) (offset_x cv x)) sl)"
  by (simp add: getSliceAtPosition_part_001_def distance_of_def radius_of_def offset_x_def
      offset_y_def Let_def)

lemma sqrt_10000: "sqrt 10000 = 100"
  by (rule real_sqrt_unique) simp_all

lemma sqrt_100: "sqrt 100 = 10"
  by (rule real_sqrt_unique) simp_all

lemma radius_sample: "radius_of sample_canvas = 100"
  by (simp add: radius_of_def sample_canvas_def)

lemma offsets_top: "offset_x sample_canvas 120 = 0" "offset_y sample_canvas 20 = - 100"
  by (simp_all add: offset_x_def offset_y_def sample_canvas_def)

lemma distance_top: "distance_of sample_canvas 120 20 = 100"
  by (simp add: distance_of_def offsets_top sqrt_10000)

lemma angle_top: "pointer_angle (- 100) 0 = 0"
  by (simp add: pointer_angle_def atan2_def)

lemma two_halves_eq:
  "two_halves =
     [\<lparr>startAngle = Num (- pi / 2), endAngle = Num (pi / 2), s_name = ''code'', s_seconds = 1,
        percentage = Num 50\<rparr>,
      \<lparr>startAngle = Num (pi / 2), endAngle = Num (3 * pi / 2), s_name = ''rest'', s_seconds = 1,
        percentage = Num 50\<rparr>]"
  by (simp add: two_halves_def slices_after_def renderPieChart_def category_of_def
      sliceAngle_of_def)

lemma one_category_eq:
  "one_category =
     [\<lparr>startAngle = Num (- pi / 2), endAngle = Num (3 * pi / 2), s_name = ''code'',
        s_seconds = 1, percentage = Num 100\<rparr>]"
  by (simp add: one_category_def slices_after_def renderPieChart_def category_of_def
      sliceAngle_of_def)

lemma normalize_Num: "normalize (Num a) = (if a < 0 then Num (a + 2 * pi) else Num a)"
  by (simp add: normalize_def)

lemma find_top_two_halves: "find_slice 0 two_halves = Some (two_halves ! 0)"
  by (simp add: two_halves_eq normalize_Num js_ge_def Let_def not_le)

lemma find_top_two_halves_part_001: "find_slice_part_001 0 two_halves = None"
  by (simp add: two_halves_eq normalize_Num js_ge_def nullish_def Let_def not_le)

lemma main_copy_wrap_branch:
  assumes "js_lt (normalize (endAngle s)) (normalize (startAngle s))"
  shows "find_slice angle (s # rest) =
     (if js_ge (Num angle) (normalize (startAngle s)) \<or> js_le (Num angle) (normalize (endAngle s))
      then Some s else find_slice angle rest)"
  using assms by (simp add: Let_def)

lemma second_copy_wrap_branch:
  assumes "js_lt (normalize (endAngle s)) (normalize (startAngle s))"
  shows "find_slice_part_001 angle (s # rest) =
     (if js_ge (Num angle) (normalize (startAngle s)) then Some s
      else find_slice_part_001 angle rest)"
  using assms by (simp add: Let_def nullish_def)

text \<open>
  C5. In the component of \<^verbatim>\<open>time-tracker-client.tsx\<close> a slice whose normalised end lies
  before its normalised start matches exactly the angles at or after the start or at or
  before the end (\<open>main_copy_wrap_branch\<close>). The copy in \<^verbatim>\<open>part_001\<close> matches only the
  angles at or after the start (\<open>second_copy_wrap_branch\<close>). On the pie of two equal
  categories the first slice wraps; the pointer straight above the centre has the angle
  \<open>0\<close>, which is before the slice's end: the first component returns the slice, the copy
  returns nothing.
\<close>

theorem wrap_branch_part_001_misses:
  "js_lt (normalize (endAngle (two_halves ! 0))) (normalize (startAngle (two_halves ! 0)))
   \<and> js_le (Num (pointer_angle (offset_y sample_canvas 20) (offset_x sample_canvas 120)))
        (normalize (endAngle (two_halves ! 0)))
   \<and> getSliceAtPosition (Some sample_canvas) two_halves 120 20 = Some (two_halves ! 0)
   \<and> getSliceAtPosition_part_001 (Some sample_canvas) two_halves 120 20 = None"
proof (intro conjI)
  show "js_lt (normalize (endAngle (two_halves ! 0))) (normalize (startAngle (two_halves ! 0)))"
    by (simp add: two_halves_eq normalize_Num)
  show "js_le (Num (pointer_angle (offset_y sample_canvas 20) (offset_x sample_canvas 120)))
        (normalize (endAngle (two_halves ! 0)))"
    by (simp add: offsets_top angle_top two_halves_eq normalize_Num)
  have ne: "two_halves \<noteq> []" by (simp add: two_halves_eq)
  show "getSliceAtPosition (Some sample_canvas) two_halves 120 20 = Some (two_halves ! 0)"
    unfolding getSliceAtPosition_eq
    by (simp add: ne distance_top radius_sample offsets_top angle_top find_top_two_halves)
  show "getSliceAtPosition_part_001 (Some sample_canvas) two_halves 120 20 = None"
    unfolding getSliceAtPosition_part_001_eq
    by (simp add: ne distance_top radius_sample offsets_top angle_top
        find_top_two_halves_part_001)
qed

text \<open>
  C2 fails on a pie of one category. Its only slice runs from \<open>-\<pi>/2\<close> to \<open>3\<pi>/2\<close>; both
  ends are normalised to \<open>3\<pi>/2\<close>, the wrap branch is not taken, and the slice matches the
  single angle \<open>3\<pi>/2\<close>. A pointer ten pixels to the right of the centre, well inside the
  radius, gets no slice.
\<close>

theorem single_category_never_hit:
  "distance_of sample_canvas 130 120 < radius_of sample_canvas
   \<and> getSliceAtPosition (Some sample_canvas) one_category 130 120 = None"
proof -
  have off: "offset_x sample_canvas 130 = 10" "offset_y sample_canvas 120 = 0"
    by (simp_all add: offset_x_def offset_y_def sample_canvas_def)
  have d: "distance_of sample_canvas 130 120 = 10"
    by (simp add: distance_of_def off sqrt_100)
  have a: "pointer_angle 0 10 = pi / 2"
    by (simp add: pointer_angle_def atan2_def)
  have f: "find_slice (pi / 2) one_category = None"
    by (simp add: one_category_eq normalize_Num js_ge_def Let_def not_le)
  show ?thesis
    unfolding getSliceAtPosition_eq
    by (simp add: d radius_sample off a f)
qed

text \<open>
  C10. With no slices, or no canvas, the hit tester returns nothing. A pointer is rejected
  for its distance only when the distance exceeds the radius: at a distance equal to the
  radius the slices are scanned as for an inner point, and a slice can be returned, as for
  the point straight above the centre on the rim of the sample canvas.
\<close>

theorem rim_is_inside:
  "getSliceAtPosition canvasRef [] x y = None
   \<and> getSliceAtPosition None sl x y = None
   \<and> (distance_of cv x y > radius_of cv \<longrightarrow> getSliceAtPosition (Some cv) sl x y = None)
   \<and> (distance_of cv x y = radius_of cv \<longrightarrow>
        getSliceAtPosition (Some cv) sl x y
          = find_slice (pointer_angle (offset_y cv y) (offset_x cv x)) sl)
   \<and> distance_of sample_canvas 120 20 = radius_of sample_canvas
   \<and> getSliceAtPosition (Some sample_canvas) two_halves 120 20 = Some (two_halves ! 0)"
proof (intro conjI impI)
  show "getSliceAtPosition canvasRef [] x y = None"
    by (cases canvasRef) (simp_all add: getSliceAtPosition_def)
  show "getSliceAtPosition None sl x y = None"
    by (simp add: getSliceAtPosition_def)
  show "getSliceAtPosition (Some cv) sl x y = None" if "distance_of cv x y > radius_of cv"
    using that by (simp add: getSliceAtPosition_eq)
  show "getSliceAtPosition (Some cv) sl x y
          = find_slice (pointer_angle (offset_y cv y) (offset_x cv x)) sl"
    if "distance_of cv x y = radius_of cv"
    using that by (cases sl) (simp_all add: getSliceAtPosition_eq)
  show "distance_of sample_canvas 120 20 = radius_of sample_canvas"
    by (simp add: distance_top radius_sample)
  have ne: "two_halves \<noteq> []" by (simp add: two_halves_eq)
  show "getSliceAtPosition (Some sample_canvas) two_halves 120 20 = Some (two_halves ! 0)"
    unfolding getSliceAtPosition_eq
    by (simp add: ne distance_top radius_sample offsets_top angle_top find_top_two_halves)
qed

theorem rim_is_inside_witness:
  "distance_of sample_canvas 120 0 > radius_of sample_canvas
   \<and> getSliceAtPosition (Some sample_canvas) two_halves 120 0 = None
   \<and> distance_of sample_canvas 120 20 = radius_of sample_canvas
   \<and> getSliceAtPosition (Some sample_canvas) two_halves 120 20
       = find_slice (pointer_angle (offset_y sample_canvas 20) (offset_x sample_canvas 120))
           two_halves"
proof -
  have off: "offset_x sample_canvas 120 = 0" "offset_y sample_canvas 0 = - 120"
    by (simp_all add: offset_x_def offset_y_def sample_canvas_def)
  have "sqrt 14400 = 120" by (rule real_sqrt_unique) simp_all
  then have out: "distance_of sample_canvas 120 0 > radius_of sample_canvas"
    by (simp add: distance_of_def off radius_sample)
  have rim: "distance_of sample_canvas 120 20 = radius_of sample_canvas"
    by (simp add: distance_top radius_sample)
  from rim_is_inside[where cv = sample_canvas and x = 120 and y = 0 and sl = two_halves] out
  have "getSliceAtPosition (Some sample_canvas) two_halves 120 0 = None" by blast
  moreover from rim_is_inside[where cv = sample_canvas and x = 120 and y = 20 and sl = two_halves]
    rim
  have "getSliceAtPosition (Some sample_canvas) two_halves 120 20
       = find_slice (pointer_angle (offset_y sample_canvas 20) (offset_x sample_canvas 120))
           two_halves" by blast
  ultimately show ?thesis using out rim by blast
qed

text \<open>
  Away from that case the hit tester does find a slice: when every category holds less
  than the whole total, every pointer within the radius gets the first slice whose span
  contains its angle.
\<close>

lemma find_slice_first:
  "find_slice angle sl = List.find (in_span angle) sl"
  by (induction sl) (simp_all add: in_span_def Let_def)

lemma find_slice_hits:
  assumes "s \<in> set sl" and "in_span angle s"
  shows "\<exists>s'. find_slice angle sl = Some s' \<and> s' \<in> set sl \<and> in_span angle s'"
proof (cases "List.find (in_span angle) sl")
  case None
  with assms show ?thesis by (auto simp: find_None_iff)
next
  case (Some s')
  then have "s' \<in> set sl \<and> in_span angle s'"
    by (auto simp: find_Some_iff)
  with Some show ?thesis by (simp add: find_slice_first)
qed

lemma atan2_bounds: "- pi < atan2 y x \<and> atan2 y x \<le> pi"
proof -
  have b: "- (pi / 2) < arctan (y / x)" "arctan (y / x) < pi / 2"
    by (rule arctan_lbound arctan_ubound)+
  have pp: "0 < pi" by (rule pi_gt_zero)
  consider "0 < x" | "x < 0" "0 \<le> y" | "x < 0" "y < 0" | "x = 0" "0 < y" | "x = 0" "y < 0"
    | "x = 0" "y = 0"
    by linarith
  then show ?thesis
  proof cases
    case 1
    then have "atan2 y x = arctan (y / x)" by (simp add: atan2_def)
    with b pp show ?thesis by linarith
  next
    case 2
    then have "y / x \<le> 0" by (simp add: divide_nonneg_neg)
    then have "arctan (y / x) \<le> 0" by (simp add: arctan_le_zero_iff)
    moreover from 2 have "atan2 y x = arctan (y / x) + pi" by (simp add: atan2_def)
    ultimately show ?thesis using b pp by linarith
  next
    case 3
    then have "0 < y / x" by (simp add: divide_neg_neg)
    then have "0 < arctan (y / x)" by (simp add: zero_less_arctan_iff)
    moreover from 3 have "atan2 y x = arctan (y / x) - pi" by (simp add: atan2_def)
    ultimately show ?thesis using b pp by linarith
  next
    case 4
    then have "atan2 y x = pi / 2" by (simp add: atan2_def)
    with pp show ?thesis by linarith
  next
    case 5
    then have "atan2 y x = - pi / 2" by (simp add: atan2_def)
    with pp show ?thesis by linarith
  next
    case 6
    then have "atan2 y x = 0" by (simp add: atan2_def)
    with pp show ?thesis by linarith
  qed
qed

lemma pointer_angle_range: "0 \<le> pointer_angle dy dx \<and> pointer_angle dy dx < 2 * pi"
proof -
  have pp: "0 < pi" by (rule pi_gt_zero)
  let ?a = "atan2 dy dx + pi / 2"
  have b: "- pi < atan2 dy dx" "atan2 dy dx \<le> pi"
    using atan2_bounds[of dy dx] by simp_all
  show ?thesis
  proof (cases "?a < 0")
    case True
    then have "pointer_angle dy dx = ?a + 2 * pi" by (simp add: pointer_angle_def Let_def)
    with True b pp show ?thesis by linarith
  next
    case False
    then have "pointer_angle dy dx = ?a" by (simp add: pointer_angle_def Let_def)
    with False b pp show ?thesis by linarith
  qed
qed

lemma layout_covers:
  assumes "0 < t" and "es \<noteq> []" and "\<forall>e\<in>set es. 0 \<le> a_seconds e"
    and "c \<le> p" and "p \<le> c + sum_list (map (ideal_width t) es)"
  shows "\<exists>s\<in>set (layout t (Num c) es). \<exists>a e. e \<in> set es \<and> startAngle s = Num a
           \<and> endAngle s = Num (a + ideal_width t e) \<and> a \<le> p \<and> p \<le> a + ideal_width t e"
  using assms(2-)
proof (induction es arbitrary: c)
  case Nil
  then show ?case by simp
next
  case (Cons e es)
  from assms(1) have t: "t \<noteq> 0" by simp
  let ?w = "ideal_width t e"
  let ?s = "\<lparr>startAngle = Num c, endAngle = Num (c + ?w), s_name = name e,
             s_seconds = a_seconds e,
             percentage = js_mul (js_div (Num (real_of_int (a_seconds e)))
                                 (Num (real_of_int t))) (Num 100)\<rparr>"
  have L: "layout t (Num c) (e # es) = ?s # layout t (Num (c + ?w)) es"
    by (simp add: Let_def sliceAngle_of_Num[OF t])
  show ?case
  proof (cases "p \<le> c + ?w")
    case True
    with Cons.prems(3) have "startAngle ?s = Num c \<and> endAngle ?s = Num (c + ?w) \<and> c \<le> p
        \<and> p \<le> c + ?w"
      by simp
    then show ?thesis
      unfolding L by (intro bexI[of _ ?s] exI[of _ c] exI[of _ e]) simp_all
  next
    case False
    then have lo: "c + ?w \<le> p" by simp
    from False Cons.prems(4) have ne: "es \<noteq> []" by (cases es) simp_all
    from Cons.prems(2) have nn: "\<forall>e\<in>set es. 0 \<le> a_seconds e" by simp
    from Cons.prems(4) have hi: "p \<le> c + ?w + sum_list (map (ideal_width t) es)"
      by (simp add: add.assoc)
    from Cons.IH[OF ne nn lo hi] show ?thesis
      unfolding L by auto
  qed
qed

lemma ideal_width_less_turn:
  assumes "0 < t" and "a_seconds e < t"
  shows "ideal_width t e < 2 * pi"
proof -
  from assms have "real_of_int (a_seconds e) / real_of_int t < 1" by simp
  then have "real_of_int (a_seconds e) / real_of_int t * (2 * pi) < 1 * (2 * pi)"
    using pi_gt_zero by (intro mult_strict_right_mono) simp_all
  then show ?thesis by (simp add: ideal_width_def)
qed

lemma span_contains:
  assumes s: "startAngle s = Num a" "endAngle s = Num (a + w)"
    and w: "0 \<le> w" "w < 2 * pi"
    and th: "0 \<le> th" "th < 2 * pi"
    and p: "p = (if th < 3 * pi / 2 then th else th - 2 * pi)"
    and ap: "a \<le> p" "p \<le> a + w"
  shows "in_span th s"
proof -
  have n: "normalize (Num a) = (if a < 0 then Num (a + 2 * pi) else Num a)"
      "normalize (Num (a + w)) = (if a + w < 0 then Num (a + w + 2 * pi) else Num (a + w))"
    by (simp_all add: normalize_Num)
  consider "a + w < 0" | "0 \<le> a" | "a < 0" "0 \<le> a + w" by linarith
  then show ?thesis
  proof cases
    case 1
    with w have a: "a < 0" by linarith
    from 1 ap have "p < 0" by linarith
    with th p have "p = th - 2 * pi" by (cases "th < 3 * pi / 2") simp_all
    with ap have "a + 2 * pi \<le> th" "th \<le> a + w + 2 * pi" by linarith+
    with 1 a w show ?thesis
      by (simp add: in_span_def s n js_ge_def)
  next
    case 2
    with w have b: "\<not> a + w < 0" by linarith
    from 2 ap have "0 \<le> p" by linarith
    have "p = th"
    proof (cases "th < 3 * pi / 2")
      case True
      with p show ?thesis by simp
    next
      case False
      with p have "p = th - 2 * pi" by simp
      with \<open>0 \<le> p\<close> th show ?thesis by linarith
    qed
    with ap have "a \<le> th" "th \<le> a + w" by simp_all
    with 2 b w show ?thesis
      by (simp add: in_span_def s n js_ge_def)
  next
    case 3
    from 3 w have lt: "a + w < a + 2 * pi" by linarith
    have "a + 2 * pi \<le> th \<or> th \<le> a + w"
    proof (cases "th < 3 * pi / 2")
      case True
      with p ap show ?thesis by simp
    next
      case False
      with p have "p = th - 2 * pi" by simp
      with ap show ?thesis by linarith
    qed
    with 3 lt show ?thesis
      by (simp add: in_span_def s n js_ge_def)
  qed
qed

lemma inside_pie_hits_slice:
  assumes ne: "es \<noteq> []"
    and share: "\<forall>e\<in>set es. 0 \<le> a_seconds e \<and> a_seconds e < total_of es"
    and inside: "distance_of cv x y \<le> radius_of cv"
  shows "\<exists>s. getSliceAtPosition (Some cv) (slices_after (renderPieChart True es) old) x y = Some s
           \<and> s \<in> set (slices_after (renderPieChart True es) old)
           \<and> in_span (pointer_angle (offset_y cv y) (offset_x cv x)) s"
proof -
  let ?t = "total_of es"
  let ?sl = "layout ?t (Num (- pi / 2)) es"
  let ?th = "pointer_angle (offset_y cv y) (offset_x cv x)"
  let ?p = "if ?th < 3 * pi / 2 then ?th else ?th - 2 * pi"
  from ne obtain e0 where "e0 \<in> set es" by (cases es) auto
  with share have t: "0 < ?t" by fastforce
  have sl: "slices_after (renderPieChart True es) old = ?sl"
    by (simp add: render_Pie[OF ne] slices_after_def)
  have th: "0 \<le> ?th" "?th < 2 * pi"
    using pointer_angle_range[of "offset_y cv y" "offset_x cv x"] by simp_all
  from t have full: "sum_list (map (ideal_width ?t) es) = 2 * pi"
    by (intro sum_ideal_width_full) simp
  have pp: "0 < pi" by (rule pi_gt_zero)
  have range: "- pi / 2 \<le> ?p \<and> ?p \<le> - pi / 2 + 2 * pi"
  proof (cases "?th < 3 * pi / 2")
    case True
    then have "?p = ?th" by simp
    with True th pp show ?thesis by linarith
  next
    case False
    then have "?p = ?th - 2 * pi" by simp
    with False th pp show ?thesis by linarith
  qed
  then have lo: "- pi / 2 \<le> ?p" by (rule conjunct1)
  from range have hi: "?p \<le> - pi / 2 + sum_list (map (ideal_width ?t) es)"
    unfolding full by (rule conjunct2)
  from share have nn: "\<forall>e\<in>set es. 0 \<le> a_seconds e" by blast
  from layout_covers[OF t ne nn lo hi] obtain s a e where
    s: "s \<in> set ?sl" "e \<in> set es" "startAngle s = Num a"
      "endAngle s = Num (a + ideal_width ?t e)" "a \<le> ?p" "?p \<le> a + ideal_width ?t e"
    by blast
  from s(2) share have e: "0 \<le> a_seconds e" "a_seconds e < ?t" by blast+
  have w: "0 \<le> ideal_width ?t e" "ideal_width ?t e < 2 * pi"
    using ideal_width_nonneg[OF t e(1)] ideal_width_less_turn[OF t e(2)] by simp_all
  have "in_span ?th s"
    by (rule span_contains[OF s(3,4) w th refl s(5,6)])
  with s(1) obtain s' where
    "find_slice ?th ?sl = Some s'" "s' \<in> set ?sl" "in_span ?th s'"
    using find_slice_hits by blast
  moreover from s(1) have "?sl \<noteq> []" by auto
  ultimately show ?thesis
    using inside unfolding sl getSliceAtPosition_eq by auto
qed

section \<open>The timer session and storage failures\<close>

text \<open>
  C7, as stated, fails for \<open>stopTimer\<close>: the interval is cleared and \<open>isRunning\<close> is set to
  false before the insert is attempted, so a failed insert leaves a changed state.
\<close>

theorem stopTimer_failure_counterexample:
  "fst (stopTimer 0 (Some ''network'') None ''u1'' running_session) \<noteq> running_session
   \<and> isRunning running_session
   \<and> \<not> isRunning (fst (stopTimer 0 (Some ''network'') None ''u1'' running_session))
   \<and> intervalRef running_session \<noteq> None
   \<and> intervalRef (fst (stopTimer 0 (Some ''network'') None ''u1'' running_session)) = None"
  by (simp add: stopTimer_def running_session_def Let_def)

text \<open>
  C7, amended. When the insert of \<open>stopTimer\<close> fails, the error is logged, the alert is
  raised, no select is issued, and the state is the prior one with the interval cleared and
  \<open>isRunning\<close> false: the entry list, the aggregated list, the category text, the elapsed
  seconds and the start time keep their values. When the delete of \<open>deleteEntry\<close> fails,
  the error is logged, the alert is raised, no select is issued, and the state is
  unchanged. In both handlers the effects are exactly the storage call, the log line and
  the alert, in this order.
\<close>

theorem storage_failure_state:
  "fst (stopTimer random (Some err) updatedEntries userId st)
      = st\<lparr>intervalRef := None, isRunning := False\<rparr>
   \<and> Alert ''Failed to save time entry''
        \<in> set (snd (stopTimer random (Some err) updatedEntries userId st))
   \<and> (\<forall>u. Select u \<notin> set (snd (stopTimer random (Some err) updatedEntries userId st)))
   \<and> entries (fst (stopTimer random (Some err) updatedEntries userId st)) = entries st
   \<and> allEntries (fst (stopTimer random (Some err) updatedEntries userId st)) = allEntries st
   \<and> fst (deleteEntry (Some err) updatedEntries userId ident st) = st
   \<and> Alert ''Failed to delete time entry''
        \<in> set (snd (deleteEntry (Some err) updatedEntries userId ident st))
   \<and> (\<forall>u. Select u \<notin> set (snd (deleteEntry (Some err) updatedEntries userId ident st)))
   \<and> ConsoleError ''Error saving time entry:''
        \<in> set (snd (stopTimer random (Some err) updatedEntries userId st))
   \<and> ConsoleError ''Error deleting time entry:''
        \<in> set (snd (deleteEntry (Some err) updatedEntries userId ident st))
   \<and> snd (stopTimer random (Some err) updatedEntries userId st)
        = [Insert userId (trim (cur_category st)) (elapsedSeconds st)
             (colors ! nat \<lfloor>random * real (length colors)\<rfloor>),
           ConsoleError ''Error saving time entry:'',
           Alert ''Failed to save time entry'']
   \<and> snd (deleteEntry (Some err) updatedEntries userId ident st)
        = [Delete ident userId,
           ConsoleError ''Error deleting time entry:'',
           Alert ''Failed to delete time entry'']"
  by (simp add: stopTimer_def deleteEntry_def Let_def)

lemma div_1000_floor: "(k::int) div 1000 = \<lfloor>real_of_int k / 1000\<rfloor>"
  using floor_divide_of_int_eq[of k 1000, where ?'a = real] by simp

text \<open>
  C8. \<open>startTimer\<close> with a category that is empty after trimming raises the prompt and
  returns the state as it was (not running, no start time, no interval). With any other
  category it raises nothing, sets \<open>isRunning\<close>, records the start time, resets the elapsed
  seconds and installs the interval of period 1000 ms, whose callback at time \<open>t\<close> sets the
  elapsed seconds to \<open>\<lfloor>(t - start) / 1000\<rfloor>\<close>.
\<close>

theorem startTimer_transition:
  "(trim (cur_category st) = [] \<longrightarrow>
      startTimer now st = (st, [Alert ''Please enter a task name!'']))
   \<and> (trim (cur_category st) \<noteq> [] \<longrightarrow>
        snd (startTimer now st) = []
        \<and> fst (startTimer now st)
            = st\<lparr>startTime := Some now, elapsedSeconds := 0, isRunning := True,
                 intervalRef := Some \<lparr>period_ms = 1000, started = now\<rparr>\<rparr>
        \<and> isRunning (fst (startTimer now st))
        \<and> startTime (fst (startTimer now st)) = Some now
        \<and> (\<forall>t. elapsedSeconds (on_interval t (fst (startTimer now st)))
                 = \<lfloor>real_of_int (t - now) / 1000\<rfloor>))"
proof -
  have "(t - now) div 1000 = \<lfloor>real_of_int (t - now) / 1000\<rfloor>" for t
    by (rule div_1000_floor)
  then show ?thesis
    by (simp add: startTimer_def on_interval_def)
qed

theorem startTimer_transition_witness:
  "trim (cur_category (idle_session ''  '')) = []
   \<and> startTimer 1000 (idle_session ''  '')
       = (idle_session ''  '', [Alert ''Please enter a task name!''])
   \<and> trim (cur_category (idle_session '' code '')) \<noteq> []
   \<and> isRunning (fst (startTimer 1000 (idle_session '' code '')))
   \<and> startTime (fst (startTimer 1000 (idle_session '' code ''))) = Some 1000
   \<and> elapsedSeconds (on_interval 4500 (fst (startTimer 1000 (idle_session '' code '')))) = 3"
proof -
  have e: "trim (cur_category (idle_session ''  '')) = []"
    by (simp add: idle_session_def trim_def is_space_def)
  have n: "trim (cur_category (idle_session '' code '')) \<noteq> []"
    by (simp add: idle_session_def trim_def is_space_def)
  from startTimer_transition[of "idle_session ''  ''" 1000] e
  have 1: "startTimer 1000 (idle_session ''  '')
       = (idle_session ''  '', [Alert ''Please enter a task name!''])" by blast
  from startTimer_transition[of "idle_session '' code ''" 1000] n
  have 2: "isRunning (fst (startTimer 1000 (idle_session '' code '')))"
    "startTime (fst (startTimer 1000 (idle_session '' code ''))) = Some 1000"
    "\<forall>t. elapsedSeconds (on_interval t (fst (startTimer 1000 (idle_session '' code ''))))
                 = \<lfloor>real_of_int (t - 1000) / 1000\<rfloor>"
    by blast+
  from 2(3) have "elapsedSeconds (on_interval 4500 (fst (startTimer 1000 (idle_session '' code ''))))
      = \<lfloor>real_of_int (4500 - 1000) / 1000\<rfloor>" by blast
  also have "\<dots> = 3" by simp
  finally show ?thesis using e n 1 2(1,2) by blast
qed


end
